theory Spec2Isabelle
  imports Main "HOL-Library.Sublist"
begin

section \<open>Strings of the program\<close>

text \<open>
  The program is \<^verbatim>\<open>src/DatabaseQuerySuggester.py\<close>. A Python \<^verbatim>\<open>str\<close> is modelled
  as a \<^typ>\<open>string\<close> whose characters are the code points U+0000 to U+00FF; the
  character classes below are the ones Python 3 uses on that range.
\<close>

definition is_space :: "char \<Rightarrow> bool" where
  \<comment> \<open>\<^verbatim>\<open>str.isspace\<close> and the regular expression class \<^verbatim>\<open>\s\<close>\<close>
  "is_space c = ((of_char c :: nat) \<in> {9, 10, 11, 12, 13, 28, 29, 30, 31, 32, 133, 160})"

definition is_word_char :: "char \<Rightarrow> bool" where
  \<comment> \<open>the regular expression class \<^verbatim>\<open>\w\<close>: alphanumerics and the underscore\<close>
  "is_word_char c =
     (let n = (of_char c :: nat) in
        (48 \<le> n \<and> n \<le> 57) \<or> (65 \<le> n \<and> n \<le> 90) \<or> n = 95 \<or> (97 \<le> n \<and> n \<le> 122)
        \<or> n \<in> {170, 178, 179, 181, 185, 186, 188, 189, 190}
        \<or> (192 \<le> n \<and> n \<noteq> 215 \<and> n \<noteq> 247))"

definition lower_char :: "char \<Rightarrow> char" where
  \<comment> \<open>the lower-case mapping that \<^verbatim>\<open>re.IGNORECASE\<close> applies to one character\<close>
  "lower_char c =
     (let n = (of_char c :: nat) in
        if (65 \<le> n \<and> n \<le> 90) \<or> (192 \<le> n \<and> n \<le> 222 \<and> n \<noteq> 215)
        then char_of (n + 32) else c)"

definition upper_char :: "char \<Rightarrow> string" where
  \<comment> \<open>\<^verbatim>\<open>str.upper\<close> on one character. U+00DF becomes two letters. Python sends U+00B5
      and U+00FF to code points above U+00FF, which are neither white space nor ASCII
      letters; they are kept here, which the two tests made on the upper-cased
      statement cannot tell apart.\<close>
  "upper_char c =
     (let n = (of_char c :: nat) in
        if (97 \<le> n \<and> n \<le> 122) \<or> (224 \<le> n \<and> n \<le> 254 \<and> n \<noteq> 247)
        then [char_of (n - 32)]
        else if n = 223 then ''SS'' else [c])"

definition upper :: "string \<Rightarrow> string" where
  "upper s = concat (map upper_char s)"

definition strip :: "string \<Rightarrow> string" where
  \<comment> \<open>\<^verbatim>\<open>str.strip()\<close>\<close>
  "strip s = rev (dropWhile is_space (rev (dropWhile is_space s)))"

fun contains :: "string \<Rightarrow> string \<Rightarrow> bool" where
  \<comment> \<open>\<^verbatim>\<open>p in s\<close>\<close>
  "contains p [] = (p = [])"
| "contains p (c # cs) = (prefix p (c # cs) \<or> contains p cs)"

fun join :: "string \<Rightarrow> string list \<Rightarrow> string" where
  \<comment> \<open>\<^verbatim>\<open>sep.join(xs)\<close>\<close>
  "join sep [] = []"
| "join sep [x] = x"
| "join sep (x # y # ys) = x @ sep @ join sep (y # ys)"

section \<open>Regular expression matching\<close>

definition ci_char :: "char \<Rightarrow> char \<Rightarrow> bool" where
  \<comment> \<open>a literal pattern character \<open>p\<close> against a subject character, ignoring case\<close>
  "ci_char p c = (lower_char c = lower_char p)"

fun ci_prefix :: "string \<Rightarrow> string \<Rightarrow> bool" where
  \<comment> \<open>a literal pattern matches at the start of the subject, ignoring case\<close>
  "ci_prefix [] s = True"
| "ci_prefix (p # ps) [] = False"
| "ci_prefix (p # ps) (c # cs) = (ci_char p c \<and> ci_prefix ps cs)"

definition word_boundary :: "string \<Rightarrow> nat \<Rightarrow> bool" where
  \<comment> \<open>\<^verbatim>\<open>\b\<close> at position \<open>i\<close>: exactly one neighbour is a word character\<close>
  "word_boundary s i =
     ((0 < i \<and> i \<le> length s \<and> is_word_char (s ! (i - 1)))
        \<noteq> (i < length s \<and> is_word_char (s ! i)))"

definition keyword_at :: "string \<Rightarrow> string \<Rightarrow> nat \<Rightarrow> bool" where
  \<comment> \<open>\<^verbatim>\<open>\bKW\b\<close> matches at position \<open>i\<close>\<close>
  "keyword_at kw s i =
     (word_boundary s i \<and> ci_prefix kw (drop i s) \<and> word_boundary s (i + length kw))"

fun first_some :: "('a \<Rightarrow> 'b option) \<Rightarrow> 'a list \<Rightarrow> 'b option" where
  \<comment> \<open>the first alternative that succeeds, in the order the engine tries them\<close>
  "first_some f [] = None"
| "first_some f (x # xs) = (case f x of Some y \<Rightarrow> Some y | None \<Rightarrow> first_some f xs)"

section \<open>Flipped conditions\<close>

definition at_end :: "string \<Rightarrow> nat \<Rightarrow> bool" where
  \<comment> \<open>\<^verbatim>\<open>$\<close> without \<^verbatim>\<open>re.MULTILINE\<close>: the end, or just before a final newline\<close>
  "at_end s j = (j = length s \<or> (Suc j = length s \<and> s ! j = CHR 0x0A))"

definition clause_end_at :: "string \<Rightarrow> nat \<Rightarrow> bool" where
  \<comment> \<open>\<^verbatim>\<open>(?:\bGROUP BY\b|\bORDER BY\b|\bLIMIT\b|$)\<close> matches at position \<open>j\<close>\<close>
  "clause_end_at s j =
     (keyword_at ''GROUP BY'' s j \<or> keyword_at ''ORDER BY'' s j \<or> keyword_at ''LIMIT'' s j
        \<or> at_end s j)"

definition where_match_at :: "string \<Rightarrow> nat \<Rightarrow> (nat \<times> nat) option" where
  \<comment> \<open>the pattern of \<open>where_match\<close> tried at start position \<open>i\<close>; the lazy group
      \<^verbatim>\<open>(.*?)\<close> (with \<^verbatim>\<open>re.DOTALL\<close>) ends at the first position where the rest matches\<close>
  "where_match_at s i =
     (if keyword_at ''WHERE'' s i
      then (case find (clause_end_at s) [i + 5 ..< Suc (length s)] of
              None \<Rightarrow> None
            | Some j \<Rightarrow> Some (i + 5, j))
      else None)"

definition where_match :: "string \<Rightarrow> (nat \<times> nat) option" where
  \<comment> \<open>\<^verbatim>\<open>re.search(r'\bWHERE\b(.*?)(?:\bGROUP BY\b|\bORDER BY\b|\bLIMIT\b|$)', sql_command,
      re.IGNORECASE | re.DOTALL)\<close>: \<open>None\<close>, or \<open>(start(1), end(1))\<close> of the leftmost match\<close>
  "where_match s = first_some (where_match_at s) [0 ..< Suc (length s)]"

definition flip_map :: "(string \<times> string) list" where
  "flip_map =
     [(''>='', ''<''), (''<='', ''>''), (''<>'', ''=''), (''!='', ''=''),
      (''>'', ''<=''), (''<'', ''>=''), (''='', ''<>'')]"

definition flip_operator :: "string \<Rightarrow> string" where
  \<comment> \<open>\<^verbatim>\<open>flip_map.get(op, op)\<close> on the matched text \<open>op\<close>\<close>
  "flip_operator op = (case map_of flip_map op of Some v \<Rightarrow> v | None \<Rightarrow> op)"

definition operators :: "string list" where
  \<comment> \<open>the alternatives of \<^verbatim>\<open>(>=|<=|<>|!=|>|<|=)\<close>, in the order they are tried\<close>
  "operators = [''>='', ''<='', ''<>'', ''!='', ''>'', ''<'', ''='']"

definition match_operator :: "string \<Rightarrow> string option" where
  "match_operator s = find (\<lambda>op. prefix op s) operators"

function flip_all :: "string \<Rightarrow> string" where
  \<comment> \<open>\<^verbatim>\<open>re.sub(r'(>=|<=|<>|!=|>|<|=)', flip_operator, where_clause)\<close>\<close>
  "flip_all s =
     (case match_operator s of
        Some op \<Rightarrow> flip_operator op @ flip_all (drop (length op) s)
      | None \<Rightarrow> (case s of [] \<Rightarrow> [] | c # cs \<Rightarrow> c # flip_all cs))"
  by pat_completeness auto
termination
proof (relation "measure length")
  show "wf (measure length)" by simp
next
  fix s op
  assume "match_operator s = Some op"
  then have "0 < length op \<and> length op \<le> length s"
    by (auto simp: match_operator_def operators_def find_Some_iff prefix_length_le
        split: if_splits)
  then show "(drop (length op) s, s) \<in> measure length" by (cases op) simp_all
next
  fix s c cs
  assume "s = c # cs"
  then show "(cs, s) \<in> measure length" by simp
qed

declare flip_all.simps [simp del]

definition suggest_flipped_conditions :: "string \<Rightarrow> string option" where
  "suggest_flipped_conditions sql_command =
     (let sql_upper = upper sql_command in
      if \<not> contains ''WHERE'' sql_upper then None
      else (case where_match sql_command of
              None \<Rightarrow> None
            | Some (start1, end1) \<Rightarrow>
                (let where_clause = '' '' @ strip (take (end1 - start1) (drop start1 sql_command));
                     flipped_where = flip_all where_clause;
                     before_where = take start1 sql_command;
                     after_where = drop end1 sql_command
                 in Some (before_where @ flipped_where @ after_where))))"

section \<open>Aggregate query\<close>

text \<open>
  The database is outside the program. What the method needs from it is what
  \<^verbatim>\<open>self.cursor.execute(sql_command)\<close> does now: it raises \<^verbatim>\<open>psycopg.Error\<close>, or it
  returns and leaves \<^verbatim>\<open>self.cursor.description\<close> (\<open>None\<close>, or one pair of column name
  and type code per column) and a \<^verbatim>\<open>fetchall\<close> that returns or raises \<^verbatim>\<open>psycopg.Error\<close>.
  An exception that no handler of the program catches is the \<open>Inl\<close> of the result.
\<close>

datatype exn = AttributeError

datatype exec_result =
  DbError
| Executed "(string \<times> int) list option" bool
  \<comment> \<open>\<^verbatim>\<open>description\<close>, and whether \<^verbatim>\<open>fetchall\<close> raises\<close>

datatype connection = Connection

record PostgreSQLManager =
  connection :: "connection option"
  cursor :: "(string \<Rightarrow> exec_result) option"

definition numeric_types :: "int set" where
  "numeric_types = {23, 20, 21, 700, 701, 1700, 1114}"

definition space_run :: "string \<Rightarrow> nat \<Rightarrow> nat" where
  \<comment> \<open>how many characters a greedy \<^verbatim>\<open>\s+\<close> takes at position \<open>i\<close>\<close>
  "space_run s i = length (takeWhile is_space (drop i s))"

definition from_at :: "string \<Rightarrow> nat \<Rightarrow> bool" where
  \<comment> \<open>\<^verbatim>\<open>\s+FROM\<close> matches at position \<open>j\<close>; the greedy \<^verbatim>\<open>\s+\<close> gives characters back\<close>
  "from_at s j =
     (\<exists>m \<in> set (rev [1 ..< Suc (space_run s j)]). ci_prefix ''FROM'' (drop (j + m) s))"

definition select_match_at :: "string \<Rightarrow> nat \<Rightarrow> (nat \<times> nat) option" where
  \<comment> \<open>the pattern of \<open>select_match\<close> tried at start position \<open>i\<close>: the first \<^verbatim>\<open>\s+\<close> takes
      as much as it can and gives back one character at a time, the lazy group ends at
      the first position where \<^verbatim>\<open>\s+FROM\<close> matches\<close>
  "select_match_at s i =
     (if ci_prefix ''SELECT'' (drop i s)
      then first_some
             (\<lambda>k. case find (from_at s) [i + 6 + k ..< Suc (length s)] of
                     None \<Rightarrow> None
                   | Some j \<Rightarrow> Some (i + 6 + k, j))
             (rev [1 ..< Suc (space_run s (i + 6))])
      else None)"

definition select_match :: "string \<Rightarrow> (nat \<times> nat) option" where
  \<comment> \<open>\<^verbatim>\<open>re.search(r'SELECT\s+(.*?)\s+FROM', sql_command, re.IGNORECASE | re.DOTALL)\<close>:
      \<open>None\<close>, or \<open>(start(1), end(1))\<close> of the leftmost match\<close>
  "select_match s = first_some (select_match_at s) [0 ..< Suc (length s)]"

definition agg_keywords :: "string list" where
  "agg_keywords = [''COUNT'', ''SUM'', ''AVG'', ''MIN'', ''MAX'', ''GROUP BY'']"

definition agg_keyword_search :: "string \<Rightarrow> bool" where
  \<comment> \<open>\<^verbatim>\<open>re.search(r'\b(COUNT|SUM|AVG|MIN|MAX|GROUP BY)\b', sql_command, re.IGNORECASE)\<close>
      finds a match\<close>
  "agg_keyword_search s =
     (\<exists>i \<in> set [0 ..< Suc (length s)]. \<exists>kw \<in> set agg_keywords. keyword_at kw s i)"

definition agg_column :: "string \<Rightarrow> string" where
  "agg_column col_name =
     ''COUNT('' @ col_name @ '') as count_'' @ col_name
       @ '', SUM('' @ col_name @ '') as sum_'' @ col_name
       @ '', AVG('' @ col_name @ '') as avg_'' @ col_name"

definition suggest_aggregate_query :: "PostgreSQLManager \<Rightarrow> string \<Rightarrow> exn + string option" where
  \<comment> \<open>the list \<^verbatim>\<open>columns\<close> of the source is built and never read; it is left out\<close>
  "suggest_aggregate_query self sql_command =
     (let sql_upper = upper sql_command in
      if \<not> prefix ''SELECT'' (strip sql_upper) then Inr None
      else (case select_match sql_command of
              None \<Rightarrow> Inr None
            | Some (start1, end1) \<Rightarrow>
                (let select_clause = strip (take (end1 - start1) (drop start1 sql_command)) in
                 if agg_keyword_search sql_command then Inr None
                 else if select_clause = ''*'' then Inr None
                 else (case cursor self of
                         None \<Rightarrow> Inl AttributeError
                       | Some execute \<Rightarrow>
                           (case execute sql_command of
                              DbError \<Rightarrow> Inr None
                            | Executed None fails \<Rightarrow> Inr None
                            | Executed (Some []) fails \<Rightarrow> Inr None
                            | Executed (Some (d # ds)) fails \<Rightarrow>
                                (let column_info =
                                       map fst (filter (\<lambda>desc. snd desc \<in> numeric_types) (d # ds))
                                 in if fails then Inr None
                                    else if column_info = [] then Inr None
                                    else (let agg_columns = map agg_column column_info;
                                              agg_select = join '', '' agg_columns;
                                              rest_of_query = drop end1 sql_command
                                          in Inr (Some (''SELECT '' @ agg_select @ rest_of_query)))))))))"

section \<open>Printing the suggestions\<close>

type_synonym suggestion = "string \<times> string \<times> string"

definition agg_description :: string where
  "agg_description =
     ''This query might be worth running to get an average of the data you just retrieved.''"

definition flipped_description :: string where
  "flipped_description =
     ''These queries could help you by giving you the data you haven't seen yet.''"

definition truthy :: "string option \<Rightarrow> bool" where
  \<comment> \<open>\<^verbatim>\<open>if query:\<close> on \<open>None\<close> or a string\<close>
  "truthy q = (case q of None \<Rightarrow> False | Some t \<Rightarrow> t \<noteq> [])"

definition suggestion_lines :: "suggestion \<Rightarrow> string list" where
  "suggestion_lines sg =
     (case sg of (title, query, description) \<Rightarrow>
        [[CHR 0x0A] @ title @ '':'', ''  '' @ description, ''  '' @ query])"

definition print_query_suggestions ::
  "PostgreSQLManager \<Rightarrow> string \<Rightarrow> exn + (suggestion list \<times> string list)" where
  \<comment> \<open>the result is the list \<^verbatim>\<open>suggestions\<close> and the lines printed, in order\<close>
  "print_query_suggestions self sql_command =
     (case suggest_aggregate_query self sql_command of
        Inl e \<Rightarrow> Inl e
      | Inr agg_query \<Rightarrow>
          (let suggestions1 =
                 (case agg_query of
                    None \<Rightarrow> []
                  | Some q \<Rightarrow> if truthy agg_query
                              then [(''Aggregate Query'', q, agg_description)] else []);
               flipped_query = suggest_flipped_conditions sql_command;
               suggestions =
                 (case flipped_query of
                    None \<Rightarrow> suggestions1
                  | Some q \<Rightarrow> if truthy flipped_query
                              then suggestions1 @ [(''Flipped Conditions'', q, flipped_description)]
                              else suggestions1);
               printed1 =
                 (if suggestions \<noteq> []
                  then [[CHR 0x0A] @ ''--- Query Suggestions ---'']
                         @ concat (map suggestion_lines suggestions)
                         @ [replicate 60 CHR ''-'']
                  else []);
               printed =
                 (if connection self = None \<or> cursor self = None
                  then printed1 @ [''Error: No active database connection'']
                  else printed1)
           in Inr (suggestions, printed)))"

section \<open>Whole words, as the specification says it\<close>

text \<open>
  The specification speaks of a keyword that the statement contains ``as a whole word
  (case-insensitive)''. The two definitions below follow these words, not the code: the
  keyword stands at position \<open>i\<close> up to the case of its letters, and the characters next
  to it, where there are any, are not word characters.
\<close>

definition whole_word_at :: "string \<Rightarrow> string \<Rightarrow> nat \<Rightarrow> bool" where
  "whole_word_at kw s i =
     (i + length kw \<le> length s
      \<and> map lower_char (take (length kw) (drop i s)) = map lower_char kw
      \<and> (i = 0 \<or> \<not> is_word_char (s ! (i - 1)))
      \<and> (i + length kw = length s \<or> \<not> is_word_char (s ! (i + length kw))))"

definition contains_word :: "string \<Rightarrow> string \<Rightarrow> bool" where
  "contains_word kw s = (\<exists>i \<in> set [0 ..< Suc (length s)]. whole_word_at kw s i)"

section \<open>Facts about the matching functions\<close>

lemma lower_char_word: "is_word_char (lower_char c) = is_word_char c"
proof -
  have "(of_char c :: nat) < 256" by simp
  then show ?thesis
    unfolding is_word_char_def lower_char_def Let_def
    by (auto simp: of_char_of)
qed

lemma ci_char_word: "ci_char p c \<Longrightarrow> is_word_char c = is_word_char p"
  unfolding ci_char_def by (metis lower_char_word)

lemma ci_prefix_iff:
  "ci_prefix p t \<longleftrightarrow>
     length p \<le> length t \<and> map lower_char (take (length p) t) = map lower_char p"
  by (induction p t rule: ci_prefix.induct) (auto simp: ci_char_def)

lemma first_some_None: "first_some f xs = None \<longleftrightarrow> (\<forall>x \<in> set xs. f x = None)"
  by (induction xs) (auto split: option.splits)

lemma first_some_Some:
  "first_some f xs = Some y \<Longrightarrow> \<exists>x \<in> set xs. f x = Some y"
  by (induction xs) (auto split: option.splits)

lemma ci_prefix_nth:
  "ci_prefix p t \<Longrightarrow> k < length p \<Longrightarrow> ci_char (p ! k) (t ! k)"
proof (induction p t arbitrary: k rule: ci_prefix.induct)
  case (3 p ps c cs)
  then show ?case by (cases k) auto
qed auto

lemma keyword_at_whole_word:
  assumes kw: "kw \<noteq> []" "is_word_char (hd kw)" "is_word_char (last kw)"
  shows "keyword_at kw s i = whole_word_at kw s i"
proof (cases "ci_prefix kw (drop i s)")
  case False
  then show ?thesis
    by (auto simp: keyword_at_def whole_word_at_def ci_prefix_iff)
next
  case True
  then have len: "i + length kw \<le> length s"
    using kw(1) by (cases "i \<le> length s") (auto simp: ci_prefix_iff)
  have pos: "0 < length kw" using kw(1) by simp
  have "ci_char (kw ! 0) (drop i s ! 0)"
    using True pos by (rule ci_prefix_nth)
  then have first: "is_word_char (s ! i)"
    using kw len pos by (simp add: ci_char_word hd_conv_nth)
  define k where "k = length kw - 1"
  have k: "k < length kw" "i + k < length s" "Suc (i + k) = i + length kw"
    using pos len unfolding k_def by linarith+
  have "ci_char (kw ! k) (drop i s ! k)"
    using True k(1) by (rule ci_prefix_nth)
  moreover have "drop i s ! k = s ! (i + k)"
    using k(2) by simp
  moreover have "last kw = kw ! k"
    using kw(1) by (simp add: last_conv_nth k_def)
  ultimately have "is_word_char (s ! (i + k))"
    using kw(3) by (simp add: ci_char_word)
  moreover have "i + length kw - 1 = i + k"
    using k(3) by simp
  ultimately have lst: "is_word_char (s ! (i + length kw - 1))"
    by simp
  have "map lower_char (take (length kw) (drop i s)) = map lower_char kw"
    using True by (simp add: ci_prefix_iff)
  then show ?thesis
    using True len pos first lst
    by (auto simp: keyword_at_def whole_word_at_def word_boundary_def)
qed

lemma of_char_lower:
  "(of_char (lower_char c) :: nat) =
     (if (65 \<le> (of_char c :: nat) \<and> (of_char c :: nat) \<le> 90)
         \<or> (192 \<le> (of_char c :: nat) \<and> (of_char c :: nat) \<le> 222 \<and> (of_char c :: nat) \<noteq> 215)
      then of_char c + 32 else of_char c)"
  by (auto simp: lower_char_def Let_def of_char_of)

lemma ci_char_upper:
  assumes "ci_char p c" "65 \<le> (of_char p :: nat)" "(of_char p :: nat) \<le> 90"
  shows "upper_char c = [p]"
proof -
  have eq: "(of_char (lower_char c) :: nat) = of_char p + 32"
    using assms by (simp add: ci_char_def of_char_lower)
  have lt: "(of_char c :: nat) < 256" by simp
  show ?thesis
  proof (cases "(of_char c :: nat) = of_char p")
    case True
    then have "c = p" by simp
    then show ?thesis using assms by (simp add: upper_char_def)
  next
    case False
    then have "(of_char c :: nat) = of_char p + 32"
      using eq by (simp add: of_char_lower split: if_splits)
    moreover from this have "char_of ((of_char c :: nat) - 32) = p" by simp
    ultimately show ?thesis using assms by (simp add: upper_char_def Let_def)
  qed
qed

lemma upper_append: "upper (a @ b) = upper a @ upper b"
  by (simp add: upper_def)

lemma ci_prefix_upper:
  "ci_prefix p t \<Longrightarrow> \<forall>c \<in> set p. 65 \<le> (of_char c :: nat) \<and> (of_char c :: nat) \<le> 90
     \<Longrightarrow> prefix p (upper t)"
proof (induction p t rule: ci_prefix.induct)
  case (3 p ps c cs)
  then have "upper_char c = [p]" by (simp add: ci_char_upper)
  moreover have "prefix ps (upper cs)" using 3 by simp
  ultimately show ?case by (simp add: upper_def)
qed auto

lemma contains_append: "prefix p b \<Longrightarrow> contains p (a @ b)"
proof (induction a)
  case Nil
  then show ?case by (cases b) auto
qed auto

lemma keyword_at_where_upper:
  assumes "keyword_at ''WHERE'' s i"
  shows "contains ''WHERE'' (upper s)"
proof -
  have "ci_prefix ''WHERE'' (drop i s)" using assms by (simp add: keyword_at_def)
  then have "prefix ''WHERE'' (upper (drop i s))"
    by (rule ci_prefix_upper) simp
  then have "contains ''WHERE'' (upper (take i s) @ upper (drop i s))"
    by (rule contains_append)
  then show ?thesis by (simp add: upper_append [symmetric])
qed

lemma at_end_length: "at_end s (length s)"
  by (simp add: at_end_def)

lemma keyword_at_bound:
  "keyword_at kw s i \<Longrightarrow> i + length kw \<le> length s"
  by (cases "i \<le> length s") (auto simp: keyword_at_def ci_prefix_iff word_boundary_def)

lemma where_match_at_iff:
  "where_match_at s i \<noteq> None \<longleftrightarrow> keyword_at ''WHERE'' s i"
proof (cases "keyword_at ''WHERE'' s i")
  case True
  then have "i + 5 \<le> length s" using keyword_at_bound [of "''WHERE''" s i] by simp
  then have "length s \<in> set [i + 5 ..< Suc (length s)]" by simp
  moreover have "clause_end_at s (length s)" by (simp add: clause_end_at_def at_end_length)
  ultimately have "find (clause_end_at s) [i + 5 ..< Suc (length s)] \<noteq> None"
    unfolding find_None_iff by blast
  then obtain j where "find (clause_end_at s) [i + 5 ..< Suc (length s)] = Some j"
    by blast
  then show ?thesis using True by (simp add: where_match_at_def del: upt_Suc)
next
  case False
  then show ?thesis by (simp add: where_match_at_def)
qed

lemma where_match_iff:
  "where_match s \<noteq> None \<longleftrightarrow> (\<exists>i \<in> set [0 ..< Suc (length s)]. keyword_at ''WHERE'' s i)"
  unfolding where_match_def first_some_None using where_match_at_iff by blast

lemma word_WHERE: "keyword_at ''WHERE'' s i = whole_word_at ''WHERE'' s i"
  by (rule keyword_at_whole_word) (simp_all add: is_word_char_def)

lemma agg_keyword_word:
  "kw \<in> set agg_keywords \<Longrightarrow> keyword_at kw s i = whole_word_at kw s i"
  by (rule keyword_at_whole_word) (auto simp: agg_keywords_def is_word_char_def)

lemma match_operator_Some:
  "match_operator s = Some op \<Longrightarrow> op \<in> set operators \<and> (\<exists>rest. s = op @ rest)"
  by (auto simp: match_operator_def find_Some_iff prefix_def in_set_conv_nth)

lemma flip_all_Nil: "flip_all [] = []"
  by (subst flip_all.simps) (simp add: match_operator_def operators_def)

lemma flip_all_space: "flip_all (CHR '' '' # x) = CHR '' '' # flip_all x"
  by (subst flip_all.simps) (simp add: match_operator_def operators_def)

lemma operator_ends:
  "op \<in> set operators \<Longrightarrow>
     op \<noteq> [] \<and> flip_operator op \<noteq> [] \<and> \<not> is_space (hd op) \<and> \<not> is_space (last op)
     \<and> \<not> is_space (hd (flip_operator op)) \<and> \<not> is_space (last (flip_operator op))"
  by (auto simp: operators_def flip_operator_def flip_map_def is_space_def)

lemma flip_all_ends:
  "s \<noteq> [] \<Longrightarrow>
     flip_all s \<noteq> [] \<and> is_space (hd (flip_all s)) = is_space (hd s)
     \<and> is_space (last (flip_all s)) = is_space (last s)"
proof (induction s rule: flip_all.induct)
  case (1 s)
  show ?case
  proof (cases "match_operator s")
    case None
    then obtain c cs where s: "s = c # cs" using "1.prems" by (cases s) auto
    have eq: "flip_all s = c # flip_all cs"
      using None s by (subst flip_all.simps) simp
    show ?thesis
    proof (cases "cs = []")
      case True
      then show ?thesis using eq s by (simp add: flip_all_Nil)
    next
      case False
      then show ?thesis using "1.IH"(1) [OF None s] eq s by simp
    qed
  next
    case (Some op)
    then obtain rest where op: "op \<in> set operators" and s: "s = op @ rest"
      using match_operator_Some by blast
    have eq: "flip_all s = flip_operator op @ flip_all rest"
      using Some s by (subst flip_all.simps) simp
    note ends = operator_ends [OF op]
    show ?thesis
    proof (cases "rest = []")
      case True
      then show ?thesis using eq s ends by (simp add: flip_all_Nil)
    next
      case False
      have "drop (length op) s = rest" using s by simp
      then have "flip_all rest \<noteq> [] \<and> is_space (hd (flip_all rest)) = is_space (hd rest)
          \<and> is_space (last (flip_all rest)) = is_space (last rest)"
        using "1.IH"(2) [OF Some] False by simp
      then show ?thesis using eq s ends False by simp
    qed
  qed
qed

lemma strip_parts:
  "\<exists>lead trail. t = lead @ strip t @ trail
     \<and> (\<forall>c \<in> set lead. is_space c) \<and> (\<forall>c \<in> set trail. is_space c)
     \<and> (strip t = [] \<or> (\<not> is_space (hd (strip t)) \<and> \<not> is_space (last (strip t))))"
proof -
  define lead where "lead = takeWhile is_space t"
  define d where "d = dropWhile is_space t"
  define trail where "trail = rev (takeWhile is_space (rev d))"
  have t: "t = lead @ d" by (simp add: lead_def d_def)
  have st: "strip t = rev (dropWhile is_space (rev d))" by (simp add: strip_def d_def)
  have "strip t @ trail = rev (takeWhile is_space (rev d) @ dropWhile is_space (rev d))"
    unfolding st trail_def by (simp only: rev_append)
  also have "\<dots> = rev (rev d)" by (simp only: takeWhile_dropWhile_id)
  finally have d: "d = strip t @ trail" by simp
  have l: "\<forall>c \<in> set lead. is_space c"
    unfolding lead_def by (auto dest: set_takeWhileD)
  have tr: "\<forall>c \<in> set trail. is_space c"
    unfolding trail_def by (auto dest: set_takeWhileD)
  have ends: "\<not> is_space (hd (strip t)) \<and> \<not> is_space (last (strip t))" if ne: "strip t \<noteq> []"
  proof -
    have "d \<noteq> []" using d ne by auto
    then have "\<not> is_space (hd d)" unfolding d_def by (rule hd_dropWhile)
    moreover have "hd d = hd (strip t)" using d ne by (metis hd_append2)
    moreover have "dropWhile is_space (rev d) \<noteq> []" using ne st by simp
    then have "\<not> is_space (hd (dropWhile is_space (rev d)))" by (rule hd_dropWhile)
    then have "\<not> is_space (last (strip t))" using ne st by (simp add: last_rev)
    ultimately show ?thesis by simp
  qed
  show ?thesis using t d l tr ends by (metis append.assoc)
qed

lemma where_match_Some:
  assumes "where_match s = Some (a, b)"
  shows "a \<le> b \<and> b \<le> length s \<and> 5 \<le> a \<and> keyword_at ''WHERE'' s (a - 5) \<and> clause_end_at s b"
proof -
  obtain i where "where_match_at s i = Some (a, b)"
    using assms first_some_Some unfolding where_match_def by fastforce
  then have kw: "keyword_at ''WHERE'' s i" and a: "a = i + 5"
    and f: "find (clause_end_at s) [i + 5 ..< Suc (length s)] = Some b"
    by (auto simp: where_match_at_def simp del: upt_Suc split: if_splits option.splits)
  from f have "clause_end_at s b \<and> b \<in> set [i + 5 ..< Suc (length s)]"
    unfolding find_Some_iff by (metis nth_mem)
  then show ?thesis using kw a by auto
qed

lemma clause_end_rest:
  assumes "clause_end_at s b"
  shows "drop b s = [] \<or> drop b s = [CHR 0x0A]
       \<or> ci_prefix ''GROUP BY'' (drop b s) \<or> ci_prefix ''ORDER BY'' (drop b s)
       \<or> ci_prefix ''LIMIT'' (drop b s)"
proof (cases "at_end s b")
  case True
  then show ?thesis
  proof (cases "b = length s")
    case False
    with True have b: "Suc b = length s" "s ! b = CHR 0x0A" by (auto simp: at_end_def)
    then have "b < length s" by simp
    then have "s ! b # drop (Suc b) s = drop b s" by (rule Cons_nth_drop_Suc)
    then show ?thesis using b by simp
  qed simp
next
  case False
  then show ?thesis using assms by (auto simp: clause_end_at_def keyword_at_def)
qed



lemma select_match_Some:
  assumes "select_match s = Some (a, b)"
  shows "b \<le> length s \<and> from_at s b"
proof -
  obtain i where "select_match_at s i = Some (a, b)"
    using assms first_some_Some unfolding select_match_def by fastforce
  then have "first_some
       (\<lambda>k. case find (from_at s) [i + 6 + k ..< Suc (length s)] of
               None \<Rightarrow> None | Some j \<Rightarrow> Some (i + 6 + k, j))
       (rev [1 ..< Suc (space_run s (i + 6))]) = Some (a, b)"
    by (simp add: select_match_at_def del: upt_Suc split: if_splits)
  then obtain k where
    "(case find (from_at s) [i + 6 + k ..< Suc (length s)] of
        None \<Rightarrow> None | Some j \<Rightarrow> Some (i + 6 + k, j)) = Some (a, b)"
    using first_some_Some by fastforce
  then have "find (from_at s) [i + 6 + k ..< Suc (length s)] = Some b"
    by (simp del: upt_Suc split: option.splits)
  then have "from_at s b \<and> b \<in> set [i + 6 + k ..< Suc (length s)]"
    unfolding find_Some_iff by (metis nth_mem)
  then show ?thesis by auto
qed

lemma from_at_parts:
  assumes "from_at s b"
  shows "\<exists>ws rest. drop b s = ws @ rest \<and> ws \<noteq> [] \<and> (\<forall>c \<in> set ws. is_space c)
           \<and> ci_prefix ''FROM'' rest"
proof -
  from assms obtain m where m: "1 \<le> m" "m \<le> space_run s b"
    and fr: "ci_prefix ''FROM'' (drop (b + m) s)"
    by (auto simp: from_at_def)
  define run where "run = takeWhile is_space (drop b s)"
  have d: "drop b s = run @ dropWhile is_space (drop b s)" by (simp add: run_def)
  have ml: "m \<le> length run" using m by (simp add: space_run_def run_def)
  have sp: "\<forall>c \<in> set run. is_space c" unfolding run_def by (auto dest: set_takeWhileD)
  have tk: "take m (drop b s) = take m run" using d ml by (metis append_eq_conv_conj take_take min.absorb1)
  have dd: "drop m (drop b s) = drop (b + m) s" by (simp add: add.commute)
  have "take m (drop b s) @ drop m (drop b s) = drop b s"
    by (rule append_take_drop_id)
  then have 1: "drop b s = take m run @ drop (b + m) s"
    unfolding tk dd by (rule sym)
  have 2: "take m run \<noteq> []" using m ml by auto
  have 3: "\<forall>c \<in> set (take m run). is_space c" using sp by (auto dest: in_set_takeD)
  show ?thesis using 1 2 3 fr by blast
qed

section \<open>The two worked examples and the operator table\<close>

text \<open>
  C1. On \<^verbatim>\<open>SELECT * FROM t WHERE x >= 5 AND y != 3 ORDER BY x\<close> both operators are
  flipped as whole tokens and the text before the clause is kept, but the method strips
  the clause body and puts back only the space in front of it: the space that stood
  before \<^verbatim>\<open>ORDER BY\<close> is lost and the result reads \<^verbatim>\<open>y = 3ORDER BY x\<close>.
\<close>

theorem flipped_example_loses_space:
  "suggest_flipped_conditions ''SELECT * FROM t WHERE x >= 5 AND y != 3 ORDER BY x''
     = Some ''SELECT * FROM t WHERE x < 5 AND y = 3ORDER BY x''"
  by code_simp

text \<open>
  C2. Flipping twice does not give every operator back: \<^verbatim>\<open>!=\<close> goes to \<^verbatim>\<open>=\<close> and
  from there to \<^verbatim>\<open><>\<close>.
\<close>

theorem flip_twice_not_identity:
  "flip_operator (flip_operator ''!='') \<noteq> ''!=''"
  by (simp add: flip_operator_def flip_map_def)

text \<open>
  C2, as amended. For each of the seven operators, flipping twice gives the operator
  back, except \<^verbatim>\<open>!=\<close>, which comes back as its synonym \<^verbatim>\<open><>\<close>.
\<close>

theorem flip_twice:
  "op \<in> set operators \<Longrightarrow>
     flip_operator (flip_operator op) = (if op = ''!='' then ''<>'' else op)"
  by (auto simp: operators_def flip_operator_def flip_map_def)

theorem flip_twice_witness:
  "''>='' \<in> set operators \<and> flip_operator (flip_operator ''>='') = ''>=''
   \<and> ''!='' \<in> set operators \<and> flip_operator (flip_operator ''!='') = ''<>''"
  using flip_twice [of "''>=''"] flip_twice [of "''!=''"] by (simp add: operators_def)

text \<open>
  C3. On \<^verbatim>\<open>SELECT a, b FROM t\<close>, with \<open>a\<close> of a numeric type and \<open>b\<close> of the type
  \<open>text\<close> (type code 25), the method does not return the statement with \<^verbatim>\<open>AS\<close> in
  capitals.
\<close>

theorem aggregate_example_not_upper_case_as:
  "suggest_aggregate_query
     \<lparr>connection = Some Connection,
        cursor = Some (\<lambda>q. Executed (Some [(''a'', 23), (''b'', 25)]) False)\<rparr>
     ''SELECT a, b FROM t''
   \<noteq> Inr (Some ''SELECT COUNT(a) AS count_a, SUM(a) AS sum_a, AVG(a) AS avg_a FROM t'')"
  by code_simp

lemma select_a_b_gates:
  "prefix ''SELECT'' (strip (upper ''SELECT a, b FROM t''))"
  "select_match ''SELECT a, b FROM t'' = Some (7, 11)"
  "\<not> agg_keyword_search ''SELECT a, b FROM t''"
  "strip ''a, b'' = ''a, b''"
  by code_simp+

text \<open>
  C3, as amended. On \<^verbatim>\<open>SELECT a, b FROM t\<close>, when the execution reports column \<open>a\<close>
  with a numeric type code and column \<open>b\<close> with another one, the method returns the
  statement with the three aggregates of \<open>a\<close>, the keyword written \<^verbatim>\<open>as\<close> in lower
  case, column \<open>b\<close> dropped and \<^verbatim>\<open>FROM t\<close> as it was.
\<close>

theorem aggregate_example:
  assumes "cursor self = Some execute"
    and "execute ''SELECT a, b FROM t'' = Executed (Some [(''a'', ta), (''b'', tb)]) False"
    and "ta \<in> numeric_types" and "tb \<notin> numeric_types"
  shows "suggest_aggregate_query self ''SELECT a, b FROM t''
           = Inr (Some ''SELECT COUNT(a) as count_a, SUM(a) as sum_a, AVG(a) as avg_a FROM t'')"
  using assms
  by (simp add: suggest_aggregate_query_def select_a_b_gates agg_column_def)

theorem aggregate_example_witness:
  "suggest_aggregate_query
     \<lparr>connection = Some Connection,
        cursor = Some (\<lambda>q. Executed (Some [(''a'', 23), (''b'', 25)]) False)\<rparr>
     ''SELECT a, b FROM t''
   = Inr (Some ''SELECT COUNT(a) as count_a, SUM(a) as sum_a, AVG(a) as avg_a FROM t'')"
  using aggregate_example
    [of "\<lparr>connection = Some Connection,
           cursor = Some (\<lambda>q. Executed (Some [(''a'', 23), (''b'', 25)]) False)\<rparr>"
        "\<lambda>q. Executed (Some [(''a'', 23), (''b'', 25)]) False" 23 25]
  by (simp add: numeric_types_def)

section \<open>When a suggestion is made\<close>

text \<open>
  C9. \<open>suggest_flipped_conditions\<close> returns a suggestion exactly when the statement
  contains \<^verbatim>\<open>WHERE\<close> as a whole word, whatever the case of its letters: the substring
  test on the upper-cased statement never rejects such a statement, and the lazy group of
  the pattern always finds an end, if only the end of the statement. The example after
  the theorem has a clause body with no operator, which gives a suggestion, and a
  statement with the letters only inside \<^verbatim>\<open>somewhere\<close>, which gives none.
\<close>

theorem flipped_iff_where_word:
  "suggest_flipped_conditions s \<noteq> None \<longleftrightarrow> contains_word ''WHERE'' s"
proof
  assume "suggest_flipped_conditions s \<noteq> None"
  then have "where_match s \<noteq> None"
    by (auto simp: suggest_flipped_conditions_def Let_def split: if_splits option.splits)
  then show "contains_word ''WHERE'' s"
    unfolding where_match_iff contains_word_def word_WHERE .
next
  assume "contains_word ''WHERE'' s"
  then obtain i where i: "i \<in> set [0 ..< Suc (length s)]" "keyword_at ''WHERE'' s i"
    unfolding contains_word_def word_WHERE by blast
  then have "contains ''WHERE'' (upper s)" by (simp add: keyword_at_where_upper)
  moreover have "where_match s \<noteq> None" using i where_match_iff by blast
  ultimately show "suggest_flipped_conditions s \<noteq> None"
    by (auto simp: suggest_flipped_conditions_def Let_def split: option.splits)
qed

theorem flipped_iff_where_word_witness:
  "suggest_flipped_conditions ''SELECT * FROM t WHERE active'' \<noteq> None
   \<and> contains_word ''WHERE'' ''SELECT * FROM t WHERE active''
   \<and> suggest_flipped_conditions ''SELECT * FROM somewhere'' = None
   \<and> \<not> contains_word ''WHERE'' ''SELECT * FROM somewhere''"
proof -
  have a: "contains_word ''WHERE'' ''SELECT * FROM t WHERE active''" by code_simp
  have b: "\<not> contains_word ''WHERE'' ''SELECT * FROM somewhere''" by code_simp
  show ?thesis
    using a b flipped_iff_where_word [of "''SELECT * FROM t WHERE active''"]
      flipped_iff_where_word [of "''SELECT * FROM somewhere''"]
    by simp
qed

text \<open>
  C8. A statement that contains \<^verbatim>\<open>COUNT\<close>, \<^verbatim>\<open>SUM\<close>, \<^verbatim>\<open>AVG\<close>, \<^verbatim>\<open>MIN\<close>, \<^verbatim>\<open>MAX\<close> or
  \<^verbatim>\<open>GROUP BY\<close> as a whole word, whatever the case of its letters, gets no aggregate
  suggestion, whatever the manager and the database: the test comes before the
  statement is executed.
\<close>

theorem aggregated_statement_none:
  assumes "kw \<in> set agg_keywords" and "contains_word kw s"
  shows "suggest_aggregate_query self s = Inr None"
proof -
  from assms have "agg_keyword_search s"
    unfolding contains_word_def agg_keyword_search_def
    using agg_keyword_word by blast
  then show ?thesis
    by (simp add: suggest_aggregate_query_def Let_def split: option.splits prod.splits)
qed

theorem aggregated_statement_none_witness:
  "''COUNT'' \<in> set agg_keywords \<and> contains_word ''COUNT'' ''SELECT COUNT(x) FROM t''
   \<and> suggest_aggregate_query
       \<lparr>connection = Some Connection, cursor = Some (\<lambda>q. Executed (Some [(''count'', 20)]) False)\<rparr>
       ''SELECT COUNT(x) FROM t'' = Inr None"
proof -
  have a: "''COUNT'' \<in> set agg_keywords" by (simp add: agg_keywords_def)
  have b: "contains_word ''COUNT'' ''SELECT COUNT(x) FROM t''" by code_simp
  show ?thesis using a b aggregated_statement_none [OF a b] by simp
qed

section \<open>What the rewritten statements keep\<close>

text \<open>
  C10. The white space at the end of the clause body is not always removed: a newline
  that is the last character of the statement lies outside the clause body, because
  \<^verbatim>\<open>$\<close> matches just before it, and it is kept. On a statement that ends with two
  spaces and a newline the two spaces go and the result still ends with white space.
\<close>

theorem flipped_keeps_final_newline:
  "suggest_flipped_conditions (''SELECT * FROM t WHERE x = 1  '' @ [CHR 0x0A])
     = Some (''SELECT * FROM t WHERE x <> 1'' @ [CHR 0x0A])
   \<and> is_space (last (''SELECT * FROM t WHERE x <> 1'' @ [CHR 0x0A]))"
  by code_simp

text \<open>
  C10, as amended. A suggestion of \<open>suggest_flipped_conditions\<close> is the statement up to
  the end of the first \<^verbatim>\<open>WHERE\<close>, one space, the flipped clause body with the white
  space at its two ends removed, and the statement from the end of the clause on. The
  white space \<open>lead\<close> after \<^verbatim>\<open>WHERE\<close> becomes one space and the white space \<open>trail\<close>
  at the end of the clause body is dropped, where the clause body ends before the first
  \<^verbatim>\<open>GROUP BY\<close>, \<^verbatim>\<open>ORDER BY\<close> or \<^verbatim>\<open>LIMIT\<close>, at the end of the statement, or before a
  newline that is the last character of the statement; that newline is kept. The example
  after the theorem is a statement with no operator whose suggestion differs from it.
\<close>

theorem flipped_whitespace:
  assumes "suggest_flipped_conditions s = Some r"
  shows "\<exists>pre lead body trail post.
           s = pre @ lead @ body @ trail @ post
         \<and> where_match s = Some (length pre, length (pre @ lead @ body @ trail))
         \<and> (\<forall>c \<in> set lead. is_space c) \<and> (\<forall>c \<in> set trail. is_space c)
         \<and> r = pre @ '' '' @ flip_all body @ post
         \<and> (body = [] \<or> (\<not> is_space (hd body) \<and> \<not> is_space (last body)))
         \<and> (flip_all body = [] \<or>
              (\<not> is_space (hd (flip_all body)) \<and> \<not> is_space (last (flip_all body))))
         \<and> (post = [] \<or> post = [CHR 0x0A]
              \<or> ci_prefix ''GROUP BY'' post \<or> ci_prefix ''ORDER BY'' post
              \<or> ci_prefix ''LIMIT'' post)"
proof -
  from assms obtain a b where wm: "where_match s = Some (a, b)"
    and r: "r = take a s @ flip_all ('' '' @ strip (take (b - a) (drop a s))) @ drop b s"
    by (auto simp: suggest_flipped_conditions_def Let_def split: if_splits option.splits)
  have ab: "a \<le> b" "b \<le> length s" "clause_end_at s b"
    using where_match_Some [OF wm] by simp_all
  define g where "g = take (b - a) (drop a s)"
  have "take a s @ g = take (a + (b - a)) s" unfolding g_def by (simp only: take_add)
  then have tg: "take a s @ g = take b s" using ab by simp
  obtain lead trail where g: "g = lead @ strip g @ trail"
    and sp: "\<forall>c \<in> set lead. is_space c" "\<forall>c \<in> set trail. is_space c"
    and ends: "strip g = [] \<or> (\<not> is_space (hd (strip g)) \<and> \<not> is_space (last (strip g)))"
    using strip_parts [of g] by blast
  have "s = take b s @ drop b s" by simp
  then have s: "s = take a s @ lead @ strip g @ trail @ drop b s"
    using tg g by (metis append.assoc)
  have "length (take a s @ g) = b" using tg ab by simp
  then have len: "length (take a s @ lead @ strip g @ trail) = b" using g by simp
  have la: "length (take a s) = a" using ab by simp
  have r': "r = take a s @ '' '' @ flip_all (strip g) @ drop b s"
    using r by (simp add: g_def flip_all_space)
  have fends: "flip_all (strip g) = [] \<or>
      (\<not> is_space (hd (flip_all (strip g))) \<and> \<not> is_space (last (flip_all (strip g))))"
  proof (cases "strip g = []")
    case True
    then show ?thesis by (simp add: flip_all_Nil)
  next
    case False
    then show ?thesis using ends flip_all_ends [OF False] by simp
  qed
  note post = clause_end_rest [OF ab(3)]
  show ?thesis
    apply (rule exI [of _ "take a s"])
    apply (rule exI [of _ lead])
    apply (rule exI [of _ "strip g"])
    apply (rule exI [of _ trail])
    apply (rule exI [of _ "drop b s"])
    using s wm la len sp r' ends fends post by simp
qed

theorem flipped_whitespace_witness:
  "suggest_flipped_conditions ''SELECT * FROM t WHERE   a IS NULL   LIMIT 3''
     = Some ''SELECT * FROM t WHERE a IS NULLLIMIT 3''
   \<and> (\<exists>pre lead body trail post.
         ''SELECT * FROM t WHERE   a IS NULL   LIMIT 3'' = pre @ lead @ body @ trail @ post
       \<and> where_match ''SELECT * FROM t WHERE   a IS NULL   LIMIT 3''
           = Some (length pre, length (pre @ lead @ body @ trail))
       \<and> (\<forall>c \<in> set lead. is_space c) \<and> (\<forall>c \<in> set trail. is_space c)
       \<and> ''SELECT * FROM t WHERE a IS NULLLIMIT 3'' = pre @ '' '' @ flip_all body @ post
       \<and> (body = [] \<or> (\<not> is_space (hd body) \<and> \<not> is_space (last body)))
       \<and> (flip_all body = [] \<or>
            (\<not> is_space (hd (flip_all body)) \<and> \<not> is_space (last (flip_all body))))
       \<and> (post = [] \<or> post = [CHR 0x0A]
            \<or> ci_prefix ''GROUP BY'' post \<or> ci_prefix ''ORDER BY'' post
            \<or> ci_prefix ''LIMIT'' post))"
proof -
  have h: "suggest_flipped_conditions ''SELECT * FROM t WHERE   a IS NULL   LIMIT 3''
     = Some ''SELECT * FROM t WHERE a IS NULLLIMIT 3''"
    by code_simp
  show ?thesis using h flipped_whitespace [OF h] by blast
qed

text \<open>
  C5. A statement written \<^verbatim>\<open>select a from t\<close> comes back with \<^verbatim>\<open>SELECT\<close> in capitals:
  the text before the projection list is not kept as it was.
\<close>

theorem aggregate_rewrites_prefix:
  "suggest_aggregate_query
     \<lparr>connection = Some Connection, cursor = Some (\<lambda>q. Executed (Some [(''a'', 23)]) False)\<rparr>
     ''select a from t''
     = Inr (Some ''SELECT COUNT(a) as count_a, SUM(a) as sum_a, AVG(a) as avg_a from t'')
   \<and> \<not> prefix ''select''
         ''SELECT COUNT(a) as count_a, SUM(a) as sum_a, AVG(a) as avg_a from t''"
  by code_simp

text \<open>
  C5, as amended. A suggestion of \<open>suggest_aggregate_query\<close> is the text \<^verbatim>\<open>SELECT\<close> and
  one space, the aggregates of the numeric columns that the execution reports, and the
  statement from the end of the projection list on, unchanged: the white space before
  \<^verbatim>\<open>FROM\<close>, \<^verbatim>\<open>FROM\<close> and all that follows. Whatever stood before the end of the
  projection list is replaced.
\<close>

theorem aggregate_keeps_suffix:
  assumes "suggest_aggregate_query self s = Inr (Some r)"
  shows "\<exists>execute desc pre ws rest.
           cursor self = Some execute \<and> execute s = Executed (Some desc) False
         \<and> s = pre @ ws @ rest
         \<and> (\<exists>a. select_match s = Some (a, length pre))
         \<and> ws \<noteq> [] \<and> (\<forall>c \<in> set ws. is_space c) \<and> ci_prefix ''FROM'' rest
         \<and> r = ''SELECT ''
                 @ join '', '' (map agg_column
                                  (map fst (filter (\<lambda>d. snd d \<in> numeric_types) desc)))
                 @ ws @ rest"
proof -
  from assms obtain a b execute desc where sm: "select_match s = Some (a, b)"
    and cur: "cursor self = Some execute" and ex: "execute s = Executed (Some desc) False"
    and r: "r = ''SELECT ''
                 @ join '', '' (map agg_column
                                  (map fst (filter (\<lambda>d. snd d \<in> numeric_types) desc)))
                 @ drop b s"
    by (auto simp: suggest_aggregate_query_def Let_def
        split: if_splits option.splits exec_result.splits list.splits)
  have b: "b \<le> length s" "from_at s b" using select_match_Some [OF sm] by simp_all
  obtain ws rest where p: "drop b s = ws @ rest" "ws \<noteq> []" "\<forall>c \<in> set ws. is_space c"
      "ci_prefix ''FROM'' rest"
    using from_at_parts [OF b(2)] by blast
  have "s = take b s @ drop b s" by simp
  then have s: "s = take b s @ ws @ rest" using p(1) by simp
  have len: "length (take b s) = b" using b(1) by simp
  show ?thesis
    apply (rule exI [of _ execute])
    apply (rule exI [of _ desc])
    apply (rule exI [of _ "take b s"])
    apply (rule exI [of _ ws])
    apply (rule exI [of _ rest])
    using cur ex s sm len p r by auto
qed

theorem aggregate_keeps_suffix_witness:
  "\<exists>execute desc pre ws rest.
     cursor \<lparr>connection = Some Connection,
              cursor = Some (\<lambda>q. Executed (Some [(''a'', 23)]) False)\<rparr> = Some execute
   \<and> execute ''select a from t'' = Executed (Some desc) False
   \<and> ''select a from t'' = pre @ ws @ rest
   \<and> (\<exists>a. select_match ''select a from t'' = Some (a, length pre))
   \<and> ws \<noteq> [] \<and> (\<forall>c \<in> set ws. is_space c) \<and> ci_prefix ''FROM'' rest
   \<and> ''SELECT COUNT(a) as count_a, SUM(a) as sum_a, AVG(a) as avg_a from t''
       = ''SELECT ''
           @ join '', '' (map agg_column
                            (map fst (filter (\<lambda>d. snd d \<in> numeric_types) desc)))
           @ ws @ rest"
proof -
  have h: "suggest_aggregate_query
     \<lparr>connection = Some Connection, cursor = Some (\<lambda>q. Executed (Some [(''a'', 23)]) False)\<rparr>
     ''select a from t''
     = Inr (Some ''SELECT COUNT(a) as count_a, SUM(a) as sum_a, AVG(a) as avg_a from t'')"
    by code_simp
  show ?thesis by (rule aggregate_keeps_suffix [OF h])
qed

section \<open>The two suggestions together\<close>



section \<open>Exceptions\<close>

text \<open>
  C4. A manager whose connection was never made has no cursor. On a statement that
  passes the gates, \<^verbatim>\<open>self.cursor.execute\<close> then raises \<^verbatim>\<open>AttributeError\<close>, which the
  handler for \<^verbatim>\<open>psycopg.Error\<close> does not catch: the exception leaves
  \<open>suggest_aggregate_query\<close> and \<open>print_query_suggestions\<close>, whose test for a missing
  connection comes after the calls.
\<close>

theorem no_cursor_raises:
  "suggest_aggregate_query \<lparr>connection = None, cursor = None\<rparr> ''SELECT a FROM t''
     = Inl AttributeError
   \<and> print_query_suggestions \<lparr>connection = None, cursor = None\<rparr> ''SELECT a FROM t''
     = Inl AttributeError"
  by code_simp

text \<open>
  With a cursor, no exception leaves \<open>suggest_aggregate_query\<close>.
\<close>

lemma with_cursor_no_exception:
  "cursor self = Some execute \<Longrightarrow> \<exists>r. suggest_aggregate_query self sql_command = Inr r"
  by (simp add: suggest_aggregate_query_def Let_def
      split: option.splits prod.splits exec_result.splits list.splits)

text \<open>
  C6. When the execution of the statement raises a database error, the method returns
  \<open>None\<close> and no exception leaves it.
\<close>

theorem execution_error_absorbed:
  "cursor self = Some execute \<Longrightarrow> execute sql_command = DbError
     \<Longrightarrow> suggest_aggregate_query self sql_command = Inr None"
  by (simp add: suggest_aggregate_query_def Let_def split: option.splits prod.splits)

theorem execution_error_absorbed_witness:
  "suggest_aggregate_query \<lparr>connection = Some Connection, cursor = Some (\<lambda>q. DbError)\<rparr>
     ''SELECT a FROM t'' = Inr None"
  using execution_error_absorbed
    [of "\<lparr>connection = Some Connection, cursor = Some (\<lambda>q. DbError)\<rparr>"
        "\<lambda>q. DbError" "''SELECT a FROM t''"]
  by simp

text \<open>
  The same holds when the execution succeeds and \<^verbatim>\<open>fetchall\<close> raises the error.
\<close>

lemma fetchall_error_absorbed:
  "cursor self = Some execute \<Longrightarrow> execute sql_command = Executed d True
     \<Longrightarrow> suggest_aggregate_query self sql_command = Inr None"
  by (simp add: suggest_aggregate_query_def Let_def
      split: option.splits prod.splits list.splits)

end
